theory Spec2Isabelle
  imports Main "HOL-Library.Sublist"
begin

section \<open>Python values, errors and printed output\<close>

text \<open>
  The module \<^verbatim>\<open>gc_query_module.py\<close> works on Python integers (unbounded, hence \<^typ>\<open>int\<close>),
  on strings and on lists. Exceptions are values: a function that may raise returns
  \<open>error + 'a\<close>, with \<open>Inl\<close> for the exception.
\<close>

datatype error = ValueError string | IndexError

text \<open>
  An argument of the two lookup functions is tested with \<^verbatim>\<open>isinstance(x, int)\<close> before it is
  used. \<open>PyInt i\<close> is an object for which the test holds (an \<^verbatim>\<open>int\<close>, or a \<^verbatim>\<open>bool\<close>, which is
  the integer 0 or 1); \<open>PyOther\<close> is any object for which it fails.
\<close>

datatype pyval = PyInt int | PyOther

text \<open>
  A call of \<^verbatim>\<open>print\<close> with a caption and one value. The text written to the console is
  kept as the caption and the value printed after it.
\<close>

datatype pyprint =
    PrintStr string string
  | PrintIndices string "nat list"
  | PrintPairs string "string list"

text \<open>\<^verbatim>\<open>range(a, b)\<close>: the integers from \<open>a\<close> up to \<open>b - 1\<close>, empty when \<open>b \<le> a\<close>.\<close>

definition py_range :: "int \<Rightarrow> int \<Rightarrow> int list" where
  "py_range a b = [a..b - 1]"

text \<open>
  \<^verbatim>\<open>xs[i]\<close> on a Python list: a negative index counts from the end, and an index outside
  \<open>-len(xs) .. len(xs) - 1\<close> raises \<^verbatim>\<open>IndexError\<close>.
\<close>

definition py_index :: "'a list \<Rightarrow> int \<Rightarrow> error + 'a" where
  "py_index xs i =
     (if 0 \<le> i \<and> i < int (length xs) then Inr (xs ! nat i)
      else if - int (length xs) \<le> i \<and> i < 0 then Inr (xs ! nat (i + int (length xs)))
      else Inl IndexError)"

text \<open>\<^verbatim>\<open>sub in s\<close> on Python strings: \<open>sub\<close> occurs in \<open>s\<close> as a contiguous substring.\<close>

definition py_str_in :: "string \<Rightarrow> string \<Rightarrow> bool" where
  "py_str_in sub s = sublist sub s"

text \<open>\<^verbatim>\<open>[i for i, s in enumerate(xs) if p(s)]\<close>\<close>

definition indices_where :: "('a \<Rightarrow> bool) \<Rightarrow> 'a list \<Rightarrow> nat list" where
  "indices_where p xs = map fst (filter (\<lambda>(i, s). p s) (enumerate 0 xs))"

section \<open>Allele-count inference\<close>

text \<open>
  \<^verbatim>\<open>
  def get_num_of_alleles_from_gc(gc_len):
      num_alleles = None
      sum = 0
      for i in range(1, gc_len):
          sum += i
          if sum == gc_len:
              num_alleles = i
              return num_alleles
  \<close>
  The loop over the remaining candidates, with the running sum; falling off the end of
  the function returns \<^verbatim>\<open>None\<close>.
\<close>

fun get_num_loop :: "int \<Rightarrow> int list \<Rightarrow> int \<Rightarrow> int option" where
  "get_num_loop gc_len [] sum_v = None"
| "get_num_loop gc_len (i # is) sum_v =
     (let sum_v' = sum_v + i in
      if sum_v' = gc_len then Some i else get_num_loop gc_len is sum_v')"

definition get_num_of_alleles_from_gc :: "int \<Rightarrow> int option" where
  "get_num_of_alleles_from_gc gc_len = get_num_loop gc_len (py_range 1 gc_len) 0"

section \<open>Pair-label enumeration and the two lookups\<close>

text \<open>\<^verbatim>\<open>generic_allele_lookup_table = list(map(chr, range(65, 91)))\<close>\<close>

definition generic_allele_lookup_table :: "string list" where
  "generic_allele_lookup_table = map (\<lambda>n. [char_of n]) (py_range 65 91)"

text \<open>
  The sanity check for the input arguments, the same three tests in both lookups, in the
  order of the source.
\<close>

definition sanity_check :: "pyval \<Rightarrow> pyval \<Rightarrow> error + (int \<times> int)" where
  "sanity_check num_alleles alt_idx =
     (case num_alleles of
        PyOther \<Rightarrow> Inl (ValueError ''num_alleles must be integer >= 2'')
      | PyInt n \<Rightarrow>
          if n < 2 then Inl (ValueError ''num_alleles must be integer >= 2'')
          else (case alt_idx of
                  PyOther \<Rightarrow> Inl (ValueError ''alt_idx must be non negative integer'')
                | PyInt a \<Rightarrow>
                    if a < 0 then Inl (ValueError ''alt_idx must be non negative integer'')
                    else if a > n - 2 then Inl (ValueError ''alt_idx must be <= (num_alleles - 2)'')
                    else Inr (n, a)))"

text \<open>
  \<^verbatim>\<open>
  for i in range(num_alleles):
      for j in range(i+1):
          ref_alt_pair = generic_allele_lookup_table[i] + generic_allele_lookup_table[j]
          ref_alt_pair = ref_alt_pair[::-1]
          cur_pairs_list.append(ref_alt_pair)
  \<close>
  Each loop is a recursion over the remaining values of its variable, passing the list
  built so far; an \<^verbatim>\<open>IndexError\<close> of a table access ends both loops.
\<close>

fun pairs_inner :: "int \<Rightarrow> int list \<Rightarrow> string list \<Rightarrow> error + string list" where
  "pairs_inner i [] cur_pairs_list = Inr cur_pairs_list"
| "pairs_inner i (j # js) cur_pairs_list =
     (case py_index generic_allele_lookup_table i of
        Inl e \<Rightarrow> Inl e
      | Inr a \<Rightarrow>
          (case py_index generic_allele_lookup_table j of
             Inl e \<Rightarrow> Inl e
           | Inr b \<Rightarrow> pairs_inner i js (cur_pairs_list @ [rev (a @ b)])))"

fun pairs_outer :: "int list \<Rightarrow> string list \<Rightarrow> error + string list" where
  "pairs_outer [] cur_pairs_list = Inr cur_pairs_list"
| "pairs_outer (i # is) cur_pairs_list =
     (case pairs_inner i (py_range 0 (i + 1)) cur_pairs_list of
        Inl e \<Rightarrow> Inl e
      | Inr cur_pairs_list' \<Rightarrow> pairs_outer is cur_pairs_list')"

definition build_pairs :: "int \<Rightarrow> error + string list" where
  "build_pairs num_alleles = pairs_outer (py_range 0 num_alleles) []"

definition get_gc_indices_for_alt_allele ::
    "pyval \<Rightarrow> pyval \<Rightarrow> bool \<Rightarrow> error + (pyprint list \<times> nat list)" where
  "get_gc_indices_for_alt_allele num_alleles alt_idx verbose =
     (case sanity_check num_alleles alt_idx of
        Inl e \<Rightarrow> Inl e
      | Inr (n, a) \<Rightarrow>
          (let allele_idx = a + 1 in
           case build_pairs n of
             Inl e \<Rightarrow> Inl e
           | Inr cur_pairs_list \<Rightarrow>
               (case py_index generic_allele_lookup_table allele_idx of
                  Inl e \<Rightarrow> Inl e
                | Inr alt_allele \<Rightarrow>
                    (let indices = indices_where (\<lambda>s. py_str_in alt_allele s) cur_pairs_list;
                         out = (if verbose then
                                  [PrintStr ''   Alt-allele:'' alt_allele,
                                   PrintIndices ''   Indices:'' indices,
                                   PrintPairs ''   All pairs:'' cur_pairs_list,
                                   PrintPairs ''   Selected pairs:''
                                     (map (\<lambda>i. cur_pairs_list ! i) indices)]
                                else [])
                     in Inr (out, indices)))))"

definition get_limited_gc_indices_for_alt_allele ::
    "pyval \<Rightarrow> pyval \<Rightarrow> bool \<Rightarrow> error + (pyprint list \<times> nat list)" where
  "get_limited_gc_indices_for_alt_allele num_alleles alt_idx verbose =
     (case sanity_check num_alleles alt_idx of
        Inl e \<Rightarrow> Inl e
      | Inr (n, a) \<Rightarrow>
          (let allele_idx = a + 1 in
           case build_pairs n of
             Inl e \<Rightarrow> Inl e
           | Inr cur_pairs_list \<Rightarrow>
               (case py_index generic_allele_lookup_table allele_idx of
                  Inl e \<Rightarrow> Inl e
                | Inr alt_allele \<Rightarrow>
                    (let limited_pairs = [] @ [''A'' @ alt_allele] @ [concat (replicate 2 alt_allele)];
                         indices = indices_where (\<lambda>pair. pair \<in> set limited_pairs) cur_pairs_list;
                         out = (if verbose then
                                  [PrintStr ''   Alt-allele:'' alt_allele,
                                   PrintIndices ''   Indices:'' indices,
                                   PrintPairs ''   All pairs:'' cur_pairs_list,
                                   PrintPairs ''   Limited pairs:'' limited_pairs,
                                   PrintPairs ''   Selected pairs:''
                                     (map (\<lambda>i. cur_pairs_list ! i) indices)]
                                else [])
                     in Inr (out, indices)))))"

text \<open>The returned value of a lookup, without the printed output.\<close>

definition returned :: "error + (pyprint list \<times> nat list) \<Rightarrow> error + nat list" where
  "returned r = map_sum id snd r"

definition printed :: "error + (pyprint list \<times> nat list) \<Rightarrow> pyprint list" where
  "printed r = (case r of Inl e \<Rightarrow> [] | Inr (out, indices) \<Rightarrow> out)"

section \<open>The pair-label list as the specification words it\<close>

text \<open>
  Following the specification (data model, ref-alt pair label): for the allele-index pair
  \<open>(i, j)\<close>, with \<open>j\<close> ranging over \<open>0..i\<close> and \<open>i\<close> over \<open>0..N-1\<close>, the label is
  \<open>label[j]\<close> followed by \<open>label[i]\<close>; the pairs are emitted in the order
  (0,0), (1,0), (1,1), (2,0), (2,1), (2,2), ... These two definitions are the
  specification's \<open>enumeratePairLabels\<close>, to be compared with \<^const>\<open>build_pairs\<close>, the loop
  of the source.
\<close>

definition pair_labels_row :: "nat \<Rightarrow> string list" where
  "pair_labels_row i =
     map (\<lambda>j. generic_allele_lookup_table ! j @ generic_allele_lookup_table ! i) [0..<Suc i]"

definition enumerate_pair_labels :: "nat \<Rightarrow> string list" where
  "enumerate_pair_labels n = concat (map pair_labels_row [0..<n])"

section \<open>Allele-count inference: the triangular numbers\<close>

lemma twice_triangle: "2 * (k * (k + 1) div 2) = k * (k + (1::int))"
proof -
  have "even (k * (k + 1))" by simp
  then show ?thesis by simp
qed

lemma triangle_strict_mono:
  assumes "1 \<le> m" "m < (k::int)"
  shows "m * (m + 1) < k * (k + 1)"
  using assms by (intro mult_strict_mono) auto

text \<open>
  The loop invariant: before candidate \<open>m\<close> is tried, the running sum is
  \<open>1 + ... + (m - 1)\<close>. The sums of the candidates before \<open>k\<close> are smaller than the sum
  at \<open>k\<close>, so the loop returns at \<open>k\<close> when the length is the sum at \<open>k\<close>.
\<close>

lemma get_num_loop_found:
  assumes "2 * g = k * (k + 1)" "1 \<le> m" "m \<le> k" "k \<le> n" "2 * s = (m - 1) * m"
  shows "get_num_loop g [m..n] s = Some k"
  using assms
proof (induction "nat (k - m)" arbitrary: m s)
  case 0
  then have mk: "m = k" by simp
  have "2 * (s + k) = 2 * g"
    using 0 mk by (simp add: algebra_simps)
  then have "s + k = g" by simp
  moreover have "[m..n] = k # [k + 1..n]"
    using 0 mk by (simp add: upto_rec1)
  ultimately show ?case by simp
next
  case (Suc d)
  then have lt: "m < k" by simp
  have two: "2 * (s + m) = m * (m + 1)"
    using Suc.prems by (simp add: algebra_simps)
  have "m * (m + 1) < k * (k + 1)"
    using Suc.prems lt by (intro triangle_strict_mono) auto
  then have ne: "s + m \<noteq> g" using two Suc.prems(1) by auto
  have step: "[m..n] = m # [m + 1..n]"
    using Suc.prems lt by (simp add: upto_rec1)
  have "get_num_loop g [m + 1..n] (s + m) = Some k"
  proof (rule Suc.hyps(1))
    show "d = nat (k - (m + 1))" using Suc.hyps(2) by simp
    show "2 * (s + m) = (m + 1 - 1) * (m + 1)" using two by (simp add: algebra_simps)
  qed (use Suc.prems lt in auto)
  then show ?case using ne step by simp
qed

text \<open>When no candidate's sum is the length, the loop runs through all of them.\<close>

lemma get_num_loop_exhausted:
  assumes "\<forall>j. m \<le> j \<and> j \<le> n \<longrightarrow> 2 * g \<noteq> j * (j + 1)" "2 * s = (m - 1) * m"
  shows "get_num_loop g [m..n] s = None"
  using assms
proof (induction "nat (n + 1 - m)" arbitrary: m s)
  case 0
  then have "[m..n] = []" by simp
  then show ?case by simp
next
  case (Suc d)
  then have le: "m \<le> n" by simp
  have two: "2 * (s + m) = m * (m + 1)"
    using Suc.prems by (simp add: algebra_simps)
  have "2 * g \<noteq> m * (m + 1)" using Suc.prems(1) le by simp
  then have ne: "s + m \<noteq> g" using two by auto
  have step: "[m..n] = m # [m + 1..n]"
    using le by (simp add: upto_rec1)
  have "get_num_loop g [m + 1..n] (s + m) = None"
  proof (rule Suc.hyps(1))
    show "d = nat (n + 1 - (m + 1))" using Suc.hyps(2) by simp
    show "\<forall>j. m + 1 \<le> j \<and> j \<le> n \<longrightarrow> 2 * g \<noteq> j * (j + 1)" using Suc.prems(1) by simp
    show "2 * (s + m) = (m + 1 - 1) * (m + 1)" using two by (simp add: algebra_simps)
  qed
  then show ?case using ne step by simp
qed

lemma four_not_triangular: "\<forall>k::int. 1 \<le> k \<longrightarrow> k * (k + 1) div 2 \<noteq> 4"
proof (intro allI impI)
  fix k :: int
  assume k: "1 \<le> k"
  show "k * (k + 1) div 2 \<noteq> 4"
  proof (cases "k \<le> 2")
    case True
    with k have "k = 1 \<or> k = 2" by auto
    then show ?thesis by auto
  next
    case False
    then have "3 * (3 + 1) \<le> k * (k + 1)" by (intro mult_mono) auto
    then have "12 \<le> k * (k + 1)" by simp
    then show ?thesis using twice_triangle[of k] by linarith
  qed
qed

text \<open>
  Claim C1, as the spec states it: for every \<open>k \<ge> 1\<close>, the inference on the triangular
  number \<open>k * (k + 1) / 2\<close> returns \<open>k\<close>. It fails at \<open>k = 1\<close>: the length is 1,
  \<^verbatim>\<open>range(1, 1)\<close> is empty, and the function returns \<^verbatim>\<open>None\<close>.
\<close>

theorem infer_allele_count_one_counterexample:
  "(1::int) \<le> 1 \<and> get_num_of_alleles_from_gc (1 * (1 + 1) div 2) \<noteq> Some 1"
  by (simp add: get_num_of_alleles_from_gc_def py_range_def)

text \<open>
  Claim C1, amended: for every integer \<open>k \<ge> 2\<close>, \<^const>\<open>get_num_of_alleles_from_gc\<close> on the
  triangular number \<open>k * (k + 1) / 2\<close> returns \<open>k\<close>; in particular it returns 4 for the
  length 10 and 3 for the length 6.
\<close>

theorem infer_allele_count_triangular:
  assumes "2 \<le> k"
  shows "get_num_of_alleles_from_gc (k * (k + 1) div 2) = Some k"
proof -
  let ?g = "k * (k + 1) div 2"
  have g: "2 * ?g = k * (k + 1)" by (rule twice_triangle)
  have "2 * k < k * (k + 1)" using assms by (simp add: algebra_simps)
  then have "k \<le> ?g - 1" using g by linarith
  then have "get_num_loop ?g [1..?g - 1] 0 = Some k"
    using assms g by (intro get_num_loop_found) auto
  then show ?thesis by (simp add: get_num_of_alleles_from_gc_def py_range_def)
qed

theorem infer_allele_count_triangular_witness:
  "(2::int) \<le> 4 \<and> (2::int) \<le> 3 \<and>
   get_num_of_alleles_from_gc 10 = Some 4 \<and> get_num_of_alleles_from_gc 6 = Some 3"
  using infer_allele_count_triangular [of 4] infer_allele_count_triangular [of 3] by simp

text \<open>
  Claim C7: for every positive length that is not a triangular number (4, 7, 11, ...),
  \<^const>\<open>get_num_of_alleles_from_gc\<close> has the candidates 1 up to \<open>length - 1\<close> to scan and
  returns no value (\<^verbatim>\<open>None\<close>); the function has no error result.
\<close>

theorem infer_allele_count_not_triangular:
  assumes "0 < gc_len" "\<forall>k. 1 \<le> k \<longrightarrow> k * (k + 1) div 2 \<noteq> gc_len"
  shows "set (py_range 1 gc_len) = {1..gc_len - 1} \<and> get_num_of_alleles_from_gc gc_len = None"
proof -
  have "\<forall>j. 1 \<le> j \<and> j \<le> gc_len - 1 \<longrightarrow> 2 * gc_len \<noteq> j * (j + 1)"
  proof (intro allI impI)
    fix j assume "1 \<le> j \<and> j \<le> gc_len - 1"
    then have "j * (j + 1) div 2 \<noteq> gc_len" using assms(2) by simp
    then show "2 * gc_len \<noteq> j * (j + 1)" using twice_triangle[of j] by linarith
  qed
  then have "get_num_loop gc_len [1..gc_len - 1] 0 = None"
    by (intro get_num_loop_exhausted) auto
  then show ?thesis by (simp add: get_num_of_alleles_from_gc_def py_range_def)
qed

theorem infer_allele_count_not_triangular_witness:
  "(0::int) < 4 \<and> \<not> (\<exists>k::int. 1 \<le> k \<and> k * (k + 1) div 2 = 4) \<and>
   get_num_of_alleles_from_gc 4 = None"
  using infer_allele_count_not_triangular [of 4] four_not_triangular by simp

section \<open>The lookup table and the pair list\<close>

lemma table_letters:
  "generic_allele_lookup_table = map (\<lambda>c. [c]) ''ABCDEFGHIJKLMNOPQRSTUVWXYZ''"
  by code_simp

lemma table_length: "length generic_allele_lookup_table = 26"
  by (simp add: table_letters)

lemma table_distinct: "distinct generic_allele_lookup_table"
  by (simp add: table_letters)

lemma table_single:
  assumes "i < 26"
  shows "\<exists>c. generic_allele_lookup_table ! i = [c]"
proof -
  have "generic_allele_lookup_table ! i \<in> set generic_allele_lookup_table"
    using assms by (simp add: table_length)
  then show ?thesis
    unfolding generic_allele_lookup_table_def by auto
qed

lemma table_inj:
  assumes "i < 26" "j < 26"
  shows "generic_allele_lookup_table ! i = generic_allele_lookup_table ! j \<longleftrightarrow> i = j"
  using assms table_distinct by (simp add: nth_eq_iff_index_eq table_length)

lemma py_index_table:
  assumes "i < 26"
  shows "py_index generic_allele_lookup_table (int i) = Inr (generic_allele_lookup_table ! i)"
  using assms by (simp add: py_index_def table_length)

lemma py_range_nat: "py_range 0 (int n) = map int [0..<n]"
proof (induction n)
  case 0
  then show ?case by (simp add: py_range_def)
next
  case (Suc n)
  have "[0..int (Suc n) - 1] = [0..int n - 1] @ [int n]"
    by (simp add: upto_rec2)
  then show ?case using Suc by (simp add: py_range_def)
qed

lemma table_rev:
  assumes "i < 26"
  shows "rev (generic_allele_lookup_table ! i) = generic_allele_lookup_table ! i"
  using table_single[OF assms] by auto

lemma pairs_inner_value:
  assumes "i < 26" "\<forall>j \<in> set js. j < 26"
  shows "pairs_inner (int i) (map int js) acc =
         Inr (acc @ map (\<lambda>j. generic_allele_lookup_table ! j @ generic_allele_lookup_table ! i) js)"
  using assms(2)
proof (induction js arbitrary: acc)
  case Nil
  then show ?case by simp
next
  case (Cons j js)
  then have j: "j < 26" by simp
  show ?case
    using Cons.IH[of "acc @ [generic_allele_lookup_table ! j @ generic_allele_lookup_table ! i]"] Cons.prems
    by (simp add: py_index_table[OF assms(1)] py_index_table[OF j] table_rev[OF assms(1)] table_rev[OF j])
qed

lemma pairs_inner_row:
  assumes "i < 26"
  shows "pairs_inner (int i) (py_range 0 (int i + 1)) acc = Inr (acc @ pair_labels_row i)"
proof -
  have "py_range 0 (int i + 1) = map int [0..<Suc i]"
    using py_range_nat[of "Suc i"] by (simp add: add.commute)
  moreover have "\<forall>j \<in> set [0..<Suc i]. j < 26" using assms by auto
  ultimately show ?thesis
    using pairs_inner_value[OF assms, of "[0..<Suc i]" acc] by (simp add: pair_labels_row_def)
qed

lemma pairs_outer_value:
  assumes "\<forall>i \<in> set is. i < 26"
  shows "pairs_outer (map int is) acc = Inr (acc @ concat (map pair_labels_row is))"
  using assms
proof (induction "is" arbitrary: acc)
  case Nil
  then show ?case by simp
next
  case (Cons i "is")
  then have i: "i < 26" by simp
  show ?case
    using Cons.IH[of "acc @ pair_labels_row i"] Cons.prems
    by (simp add: pairs_inner_row[OF i])
qed

lemma build_pairs_value:
  assumes "n \<le> 26"
  shows "build_pairs (int n) = Inr (enumerate_pair_labels n)"
proof -
  have "\<forall>i \<in> set [0..<n]. i < 26" using assms by auto
  then show ?thesis
    using pairs_outer_value[of "[0..<n]" "[]"]
    by (simp add: build_pairs_def py_range_nat enumerate_pair_labels_def)
qed

lemma pair_labels_Suc: "enumerate_pair_labels (Suc n) = enumerate_pair_labels n @ pair_labels_row n"
  by (simp add: enumerate_pair_labels_def)

lemma pair_row_length: "length (pair_labels_row i) = Suc i"
  by (simp add: pair_labels_row_def)

lemma pair_labels_length_twice: "2 * length (enumerate_pair_labels n) = n * (n + 1)"
  by (induction n) (simp_all add: pair_labels_Suc pair_row_length enumerate_pair_labels_def)

lemma pair_labels_length: "length (enumerate_pair_labels n) = n * (n + 1) div 2"
  using pair_labels_length_twice[of n] by simp

lemma pair_row_mem:
  "s \<in> set (pair_labels_row i) \<longleftrightarrow>
     (\<exists>j. j \<le> i \<and> s = generic_allele_lookup_table ! j @ generic_allele_lookup_table ! i)"
proof -
  have "set [0..<Suc i] = {j. j \<le> i}" by auto
  then have "set (pair_labels_row i) =
      (\<lambda>j. generic_allele_lookup_table ! j @ generic_allele_lookup_table ! i) ` {j. j \<le> i}"
    unfolding pair_labels_row_def set_map by simp
  then show ?thesis by auto
qed

lemma pair_labels_mem:
  "s \<in> set (enumerate_pair_labels n) \<longleftrightarrow> (\<exists>i. i < n \<and> s \<in> set (pair_labels_row i))"
  by (auto simp: enumerate_pair_labels_def)

lemma pair_eq:
  assumes "i < 26" "j < 26" "i' < 26" "j' < 26"
  shows "generic_allele_lookup_table ! j @ generic_allele_lookup_table ! i =
         generic_allele_lookup_table ! j' @ generic_allele_lookup_table ! i' \<longleftrightarrow> j = j' \<and> i = i'"
proof -
  obtain a b c d where
    "generic_allele_lookup_table ! i = [a]" "generic_allele_lookup_table ! j = [b]"
    "generic_allele_lookup_table ! i' = [c]" "generic_allele_lookup_table ! j' = [d]"
    using table_single assms by metis
  then show ?thesis
    using table_inj[OF assms(1,3)] table_inj[OF assms(2,4)] by auto
qed

lemma pair_row_distinct:
  assumes "i < 26"
  shows "distinct (pair_labels_row i)"
proof -
  have "inj_on (\<lambda>j. generic_allele_lookup_table ! j @ generic_allele_lookup_table ! i) (set [0..<Suc i])"
  proof (rule inj_onI)
    fix x y
    assume x: "x \<in> set [0..<Suc i]" and y: "y \<in> set [0..<Suc i]"
      and eq: "generic_allele_lookup_table ! x @ generic_allele_lookup_table ! i =
               generic_allele_lookup_table ! y @ generic_allele_lookup_table ! i"
    have "x < 26" "y < 26" using x y assms by auto
    then show "x = y" using pair_eq[of i x i y] eq assms by simp
  qed
  then show ?thesis by (simp add: pair_labels_row_def distinct_map)
qed

lemma pair_labels_distinct:
  assumes "n \<le> 26"
  shows "distinct (enumerate_pair_labels n)"
  using assms
proof (induction n)
  case 0
  then show ?case by (simp add: enumerate_pair_labels_def)
next
  case (Suc n)
  then have n: "n < 26" by simp
  have "set (enumerate_pair_labels n) \<inter> set (pair_labels_row n) = {}"
  proof (rule ccontr)
    assume "set (enumerate_pair_labels n) \<inter> set (pair_labels_row n) \<noteq> {}"
    then obtain s where s1: "s \<in> set (enumerate_pair_labels n)" and s2: "s \<in> set (pair_labels_row n)" by auto
    from s1 obtain i j where ij: "j \<le> i" "i < n"
      "s = generic_allele_lookup_table ! j @ generic_allele_lookup_table ! i"
      unfolding pair_labels_mem pair_row_mem by blast
    from s2 obtain j' where j': "j' \<le> n"
      "s = generic_allele_lookup_table ! j' @ generic_allele_lookup_table ! n"
      unfolding pair_row_mem by blast
    have "i = n"
      using pair_eq[of i j n j'] ij j' n by simp
    then show False using ij by simp
  qed
  then show ?case
    using Suc n by (simp add: pair_labels_Suc pair_row_distinct)
qed

section \<open>The positions a lookup returns\<close>

lemma indices_where_snoc:
  "indices_where p (xs @ [x]) = indices_where p xs @ (if p x then [length xs] else [])"
  by (simp add: indices_where_def enumerate_append_eq)

lemma indices_where_filter:
  "indices_where p xs = filter (\<lambda>k. p (xs ! k)) [0..<length xs]"
proof (induction xs rule: rev_induct)
  case Nil
  then show ?case by (simp add: indices_where_def)
next
  case (snoc x xs)
  have "filter (\<lambda>k. p ((xs @ [x]) ! k)) [0..<length xs] = filter (\<lambda>k. p (xs ! k)) [0..<length xs]"
    by (rule filter_cong) (auto simp: nth_append)
  then show ?case using snoc by (simp add: indices_where_snoc)
qed

lemma indices_where_length: "length (indices_where p xs) = length (filter p xs)"
  by (induction xs rule: rev_induct) (simp_all add: indices_where_def enumerate_append_eq)

lemma indices_where_ascending: "sorted_wrt (<) (indices_where p xs)"
  unfolding indices_where_filter by (intro sorted_wrt_filter) simp

lemma py_str_in_single: "py_str_in [c] s \<longleftrightarrow> c \<in> set s"
proof
  assume "py_str_in [c] s"
  then obtain ps ss where "s = ps @ [c] @ ss"
    by (auto simp: py_str_in_def sublist_def)
  then show "c \<in> set s" by simp
next
  assume "c \<in> set s"
  then obtain ps ss where "s = ps @ c # ss" by (auto simp: in_set_conv_decomp)
  then have "s = ps @ [c] @ ss" by simp
  then show "py_str_in [c] s" unfolding py_str_in_def sublist_def by blast
qed

lemma sanity_check_valid:
  assumes "2 \<le> n" "0 \<le> a" "a \<le> n - 2"
  shows "sanity_check (PyInt n) (PyInt a) = Inr (n, a)"
  using assms by (simp add: sanity_check_def)

lemma build_pairs_valid:
  assumes "0 \<le> n" "n \<le> 26"
  shows "build_pairs n = Inr (enumerate_pair_labels (nat n))"
  using build_pairs_value[of "nat n"] assms by simp

lemma py_index_target:
  assumes "0 \<le> a" "a + 1 < 26"
  shows "py_index generic_allele_lookup_table (a + 1) = Inr (generic_allele_lookup_table ! nat (a + 1))"
  using py_index_table[of "nat (a + 1)"] assms by simp

lemma full_lookup_value:
  assumes "2 \<le> n" "n \<le> 26" "0 \<le> a" "a \<le> n - 2"
  shows "returned (get_gc_indices_for_alt_allele (PyInt n) (PyInt a) v) =
         Inr (indices_where (py_str_in (generic_allele_lookup_table ! nat (a + 1)))
                (enumerate_pair_labels (nat n)))"
proof -
  have 1: "sanity_check (PyInt n) (PyInt a) = Inr (n, a)"
    using assms by (intro sanity_check_valid)
  have 2: "build_pairs n = Inr (enumerate_pair_labels (nat n))"
    using assms by (intro build_pairs_valid) auto
  have 3: "py_index generic_allele_lookup_table (a + 1) =
           Inr (generic_allele_lookup_table ! nat (a + 1))"
    using assms by (intro py_index_target) auto
  show ?thesis
    by (simp add: get_gc_indices_for_alt_allele_def 1 2 3 Let_def returned_def)
qed

lemma limited_lookup_value:
  assumes "2 \<le> n" "n \<le> 26" "0 \<le> a" "a \<le> n - 2"
  shows "returned (get_limited_gc_indices_for_alt_allele (PyInt n) (PyInt a) v) =
         Inr (indices_where
                (\<lambda>pair. pair = ''A'' @ generic_allele_lookup_table ! nat (a + 1) \<or>
                        pair = generic_allele_lookup_table ! nat (a + 1) @
                               generic_allele_lookup_table ! nat (a + 1))
                (enumerate_pair_labels (nat n)))"
proof -
  have 1: "sanity_check (PyInt n) (PyInt a) = Inr (n, a)"
    using assms by (intro sanity_check_valid)
  have 2: "build_pairs n = Inr (enumerate_pair_labels (nat n))"
    using assms by (intro build_pairs_valid) auto
  have 3: "py_index generic_allele_lookup_table (a + 1) =
           Inr (generic_allele_lookup_table ! nat (a + 1))"
    using assms by (intro py_index_target) auto
  have 4: "replicate 2 x = [x, x]" for x :: string
    by (simp add: numeral_2_eq_2)
  show ?thesis
    by (simp add: get_limited_gc_indices_for_alt_allele_def 1 2 3 Let_def returned_def 4)
qed

lemma pair_labels_two:
  assumes "n \<le> 26" "s \<in> set (enumerate_pair_labels n)"
  shows "\<exists>x y. s = [x, y]"
proof -
  obtain i j where ij: "j \<le> i" "i < n"
    "s = generic_allele_lookup_table ! j @ generic_allele_lookup_table ! i"
    using assms(2) unfolding pair_labels_mem pair_row_mem by blast
  then have "i < 26" "j < 26" using assms(1) by auto
  then show ?thesis using table_single[of i] table_single[of j] ij(3) by auto
qed

lemma letter_in:
  assumes "j < 26" "m < 26" "generic_allele_lookup_table ! m = [c]"
  shows "c \<in> set (generic_allele_lookup_table ! j) \<longleftrightarrow> j = m"
proof -
  obtain d where d: "generic_allele_lookup_table ! j = [d]"
    using table_single[OF assms(1)] by blast
  have "c = d \<longleftrightarrow> generic_allele_lookup_table ! j = generic_allele_lookup_table ! m"
    using d assms(3) by auto
  then show ?thesis using table_inj[OF assms(1,2)] d by simp
qed

lemma count_eq_upt: "length (filter (\<lambda>j. j = m) [0..<k]) = (if m < k then 1 else 0)"
  by (induction k) auto

lemma row_count:
  assumes "i < 26" "m < 26" "generic_allele_lookup_table ! m = [c]"
  shows "length (filter (\<lambda>s. c \<in> set s) (pair_labels_row i)) =
         (if i = m then Suc i else if m < i then 1 else 0)"
proof -
  let ?f = "\<lambda>j. generic_allele_lookup_table ! j @ generic_allele_lookup_table ! i"
  have "length (filter (\<lambda>s. c \<in> set s) (pair_labels_row i)) =
        length (filter (\<lambda>j. c \<in> set (?f j)) [0..<Suc i])"
    unfolding pair_labels_row_def filter_map by (simp add: comp_def del: upt_Suc)
  also have "filter (\<lambda>j. c \<in> set (?f j)) [0..<Suc i] = filter (\<lambda>j. j = m \<or> i = m) [0..<Suc i]"
  proof (rule filter_cong[OF refl])
    fix j assume "j \<in> set [0..<Suc i]"
    then have "j < 26" using assms(1) by auto
    then show "(c \<in> set (?f j)) = (j = m \<or> i = m)"
      using letter_in[OF _ assms(2,3)] assms(1) by simp
  qed
  also have "length \<dots> = (if i = m then Suc i else if m < i then 1 else 0)"
  proof (cases "i = m")
    case True
    then show ?thesis by (simp del: upt_Suc)
  next
    case False
    then show ?thesis using count_eq_upt[of m "Suc i"] by (auto simp del: upt_Suc)
  qed
  finally show ?thesis .
qed

lemma labels_count:
  assumes "n \<le> 26" "m < 26" "generic_allele_lookup_table ! m = [c]"
  shows "length (filter (\<lambda>s. c \<in> set s) (enumerate_pair_labels n)) = (if m < n then n else 0)"
  using assms(1)
proof (induction n)
  case 0
  then show ?case by (simp add: enumerate_pair_labels_def)
next
  case (Suc n)
  then have n: "n < 26" by simp
  show ?case
    using Suc n row_count[OF n assms(2,3)] by (auto simp: pair_labels_Suc)
qed

section \<open>The claims on the pair list and the lookups\<close>

lemma returned_Inr:
  assumes "returned r = Inr idx"
  shows "\<exists>out. r = Inr (out, idx)"
  using assms by (cases r) (auto simp: returned_def)

lemma labels_four:
  "enumerate_pair_labels 4 = [''AA'', ''AB'', ''BB'', ''AC'', ''BC'', ''CC'', ''AD'', ''BD'', ''CD'', ''DD'']"
  by (simp add: enumerate_pair_labels_def pair_labels_row_def table_letters numeral_eq_Suc)

lemma two_chars:
  "t \<in> set [x, y] \<longleftrightarrow> [x, y] ! 0 = t \<or> [x, y] ! 1 = t"
  by auto

text \<open>
  Claim C2: for every allele count in 2..26, the pair list built by the loops of the two
  lookups is the list of the specification: the pairs in the order (0,0), (1,0), (1,1),
  (2,0), (2,1), (2,2), ..., the pair \<open>(i, j)\<close> with \<open>j \<le> i\<close> rendered as \<open>label[j]\<close>
  followed by \<open>label[i]\<close>. Its length is \<open>alleleCount * (alleleCount + 1) / 2\<close>, and no
  label occurs twice.
\<close>

theorem pair_labels_enumeration:
  assumes "2 \<le> n" "n \<le> 26"
  shows "build_pairs n = Inr (enumerate_pair_labels (nat n)) \<and>
         int (length (enumerate_pair_labels (nat n))) = n * (n + 1) div 2 \<and>
         distinct (enumerate_pair_labels (nat n))"
proof -
  have "int (2 * length (enumerate_pair_labels (nat n))) = int (nat n * (nat n + 1))"
    by (simp only: pair_labels_length_twice)
  then have "2 * int (length (enumerate_pair_labels (nat n))) = n * (n + 1)"
    using assms by (simp add: algebra_simps)
  then have "int (length (enumerate_pair_labels (nat n))) = n * (n + 1) div 2"
    by simp
  moreover have "build_pairs n = Inr (enumerate_pair_labels (nat n))"
    using assms by (intro build_pairs_valid) auto
  moreover have "distinct (enumerate_pair_labels (nat n))"
    using assms by (intro pair_labels_distinct) auto
  ultimately show ?thesis by simp
qed

theorem pair_labels_enumeration_witness:
  "(2::int) \<le> 4 \<and> (4::int) \<le> 26 \<and>
   build_pairs 4 = Inr [''AA'', ''AB'', ''BB'', ''AC'', ''BC'', ''CC'', ''AD'', ''BD'', ''CD'', ''DD''] \<and>
   int (length (enumerate_pair_labels 4)) = 10 \<and> distinct (enumerate_pair_labels 4)"
  using pair_labels_enumeration [of 4] labels_four by simp

text \<open>
  Claim C3: for every valid input (allele count in 2..26, alt index in
  \<open>0..alleleCount - 2\<close>), \<^const>\<open>get_gc_indices_for_alt_allele\<close> returns, in ascending order,
  every position of the enumerated pair list whose two-character label has the target
  letter (the table entry at \<open>altIndex + 1\<close>) as its first or its second character. For
  the allele count 4 and the alt index 2 the pairs are AA, AB, BB, AC, BC, CC, AD, BD, CD,
  DD, the letter is D and the result is 6, 7, 8, 9.
\<close>

theorem full_lookup_positions:
  assumes "2 \<le> n" "n \<le> 26" "0 \<le> a" "a \<le> n - 2"
  shows "\<exists>t. generic_allele_lookup_table ! nat (a + 1) = [t] \<and>
           build_pairs n = Inr (enumerate_pair_labels (nat n)) \<and>
           returned (get_gc_indices_for_alt_allele (PyInt n) (PyInt a) v) =
           Inr (filter (\<lambda>k. enumerate_pair_labels (nat n) ! k ! 0 = t \<or> enumerate_pair_labels (nat n) ! k ! 1 = t)
                  [0..<length (enumerate_pair_labels (nat n))])"
proof -
  let ?L = "enumerate_pair_labels (nat n)"
  have "nat (a + 1) < 26" using assms by simp
  then obtain t where t: "generic_allele_lookup_table ! nat (a + 1) = [t]"
    using table_single by blast
  have "returned (get_gc_indices_for_alt_allele (PyInt n) (PyInt a) v) =
        Inr (filter (\<lambda>k. t \<in> set (?L ! k)) [0..<length ?L])"
    using full_lookup_value[OF assms, of v]
    by (simp add: t indices_where_filter py_str_in_single)
  also have "filter (\<lambda>k. t \<in> set (?L ! k)) [0..<length ?L] =
             filter (\<lambda>k. ?L ! k ! 0 = t \<or> ?L ! k ! 1 = t) [0..<length ?L]"
  proof (rule filter_cong[OF refl])
    fix k assume "k \<in> set [0..<length ?L]"
    then have "?L ! k \<in> set ?L" by simp
    moreover have "nat n \<le> 26" using assms by linarith
    ultimately obtain x y where "?L ! k = [x, y]"
      using pair_labels_two[of "nat n" "?L ! k"] by blast
    then show "(t \<in> set (?L ! k)) = (?L ! k ! 0 = t \<or> ?L ! k ! 1 = t)"
      using two_chars[of t x y] by simp
  qed
  finally have "returned (get_gc_indices_for_alt_allele (PyInt n) (PyInt a) v) =
      Inr (filter (\<lambda>k. ?L ! k ! 0 = t \<or> ?L ! k ! 1 = t) [0..<length ?L])" .
  moreover have "build_pairs n = Inr ?L"
    using assms by (intro build_pairs_valid) auto
  ultimately show ?thesis using t by blast
qed

theorem full_lookup_positions_witness:
  "(2::int) \<le> 4 \<and> (4::int) \<le> 26 \<and> (0::int) \<le> 2 \<and> (2::int) \<le> 4 - 2 \<and>
   generic_allele_lookup_table ! nat (2 + 1) = ''D'' \<and>
   build_pairs 4 = Inr [''AA'', ''AB'', ''BB'', ''AC'', ''BC'', ''CC'', ''AD'', ''BD'', ''CD'', ''DD''] \<and>
   returned (get_gc_indices_for_alt_allele (PyInt 4) (PyInt 2) True) = Inr [6, 7, 8, 9]"
proof -
  obtain t where t: "generic_allele_lookup_table ! nat (2 + 1) = [t]"
    and r: "returned (get_gc_indices_for_alt_allele (PyInt 4) (PyInt 2) True) =
            Inr (filter (\<lambda>k. enumerate_pair_labels (nat 4) ! k ! 0 = t \<or> enumerate_pair_labels (nat 4) ! k ! 1 = t)
                   [0..<length (enumerate_pair_labels (nat 4))])"
    using full_lookup_positions [of 4 2 True] by auto
  have d: "t = CHR ''D''" using t by (simp add: table_letters numeral_eq_Suc)
  have b: "build_pairs 4 = Inr (enumerate_pair_labels 4)"
    using build_pairs_valid[of 4] by simp
  have e: "filter (\<lambda>k. enumerate_pair_labels 4 ! k ! 0 = CHR ''D'' \<or> enumerate_pair_labels 4 ! k ! 1 = CHR ''D'')
             [0..<length (enumerate_pair_labels 4)] = [6, 7, 8, 9]"
    unfolding labels_four by code_simp
  have n4: "nat 4 = 4" by simp
  have "returned (get_gc_indices_for_alt_allele (PyInt 4) (PyInt 2) True) = Inr [6, 7, 8, 9]"
    using r unfolding d n4 e .
  then show ?thesis
    using t b unfolding d by (simp add: labels_four)
qed

text \<open>
  Claim C4: for every valid input (allele count in 2..26, alt index in
  \<open>0..alleleCount - 2\<close>), \<^const>\<open>get_limited_gc_indices_for_alt_allele\<close> returns exactly the
  positions of the enumerated pair list whose label is equal to one of the two constructed
  labels, \<open>'A' + target\<close> and \<open>target + target\<close>. For the allele count 4 and the alt index 1
  the target label is C and the result is 3, 5.
\<close>

theorem limited_lookup_positions:
  assumes "2 \<le> n" "n \<le> 26" "0 \<le> a" "a \<le> n - 2"
  shows "build_pairs n = Inr (enumerate_pair_labels (nat n)) \<and>
         returned (get_limited_gc_indices_for_alt_allele (PyInt n) (PyInt a) v) =
         Inr (filter
                (\<lambda>k. enumerate_pair_labels (nat n) ! k =
                        ''A'' @ generic_allele_lookup_table ! nat (a + 1) \<or>
                      enumerate_pair_labels (nat n) ! k =
                        generic_allele_lookup_table ! nat (a + 1) @
                        generic_allele_lookup_table ! nat (a + 1))
                [0..<length (enumerate_pair_labels (nat n))])"
  using limited_lookup_value[OF assms, of v] build_pairs_valid[of n] assms
  by (simp add: indices_where_filter)

theorem limited_lookup_positions_witness:
  "(2::int) \<le> 4 \<and> (4::int) \<le> 26 \<and> (0::int) \<le> 1 \<and> (1::int) \<le> 4 - 2 \<and>
   generic_allele_lookup_table ! nat (1 + 1) = ''C'' \<and>
   returned (get_limited_gc_indices_for_alt_allele (PyInt 4) (PyInt 1) True) = Inr [3, 5]"
proof -
  have c: "generic_allele_lookup_table ! nat (1 + 1) = ''C''"
    by (simp add: table_letters numeral_eq_Suc)
  have e: "filter (\<lambda>k. enumerate_pair_labels 4 ! k = ''A'' @ ''C'' \<or>
                       enumerate_pair_labels 4 ! k = ''C'' @ ''C'')
             [0..<length (enumerate_pair_labels 4)] = [3, 5]"
    unfolding labels_four by code_simp
  have n4: "nat 4 = 4" by simp
  have "returned (get_limited_gc_indices_for_alt_allele (PyInt 4) (PyInt 1) True) = Inr [3, 5]"
    using limited_lookup_positions [of 4 1 True] unfolding c n4 e by simp
  then show ?thesis using c by simp
qed

text \<open>
  Claim C5: both lookups raise \<^verbatim>\<open>ValueError\<close>, from the sanity check at their start and with
  nothing computed or printed, whenever the allele count is not an integer \<open>\<ge> 2\<close>, or the
  alt index is not a non-negative integer, or the alt index is greater than
  \<open>alleleCount - 2\<close>.
\<close>

theorem lookups_reject_invalid:
  assumes "\<not> (\<exists>n. num_alleles = PyInt n \<and> 2 \<le> n) \<or>
           \<not> (\<exists>a. alt_idx = PyInt a \<and> 0 \<le> a) \<or>
           (\<exists>n a. num_alleles = PyInt n \<and> alt_idx = PyInt a \<and> a > n - 2)"
  shows "\<exists>msg. sanity_check num_alleles alt_idx = Inl (ValueError msg) \<and>
               get_gc_indices_for_alt_allele num_alleles alt_idx verbose = Inl (ValueError msg) \<and>
               get_limited_gc_indices_for_alt_allele num_alleles alt_idx verbose = Inl (ValueError msg)"
proof -
  have "\<exists>msg. sanity_check num_alleles alt_idx = Inl (ValueError msg)"
    using assms by (cases num_alleles; cases alt_idx) (auto simp: sanity_check_def)
  then obtain msg where "sanity_check num_alleles alt_idx = Inl (ValueError msg)" by blast
  then show ?thesis
    by (simp add: get_gc_indices_for_alt_allele_def get_limited_gc_indices_for_alt_allele_def)
qed

theorem lookups_reject_invalid_witness:
  "get_gc_indices_for_alt_allele (PyInt 1) (PyInt 0) True =
     Inl (ValueError ''num_alleles must be integer >= 2'') \<and>
   get_limited_gc_indices_for_alt_allele (PyInt 4) PyOther True =
     Inl (ValueError ''alt_idx must be non negative integer'') \<and>
   get_limited_gc_indices_for_alt_allele (PyInt 4) (PyInt 3) False =
     Inl (ValueError ''alt_idx must be <= (num_alleles - 2)'')"
proof -
  have 1: "\<exists>msg. sanity_check (PyInt 1) (PyInt 0) = Inl (ValueError msg) \<and>
      get_gc_indices_for_alt_allele (PyInt 1) (PyInt 0) True = Inl (ValueError msg) \<and>
      get_limited_gc_indices_for_alt_allele (PyInt 1) (PyInt 0) True = Inl (ValueError msg)"
    by (rule lookups_reject_invalid) simp
  have 2: "\<exists>msg. sanity_check (PyInt 4) PyOther = Inl (ValueError msg) \<and>
      get_gc_indices_for_alt_allele (PyInt 4) PyOther True = Inl (ValueError msg) \<and>
      get_limited_gc_indices_for_alt_allele (PyInt 4) PyOther True = Inl (ValueError msg)"
    by (rule lookups_reject_invalid) simp
  have 3: "\<exists>msg. sanity_check (PyInt 4) (PyInt 3) = Inl (ValueError msg) \<and>
      get_gc_indices_for_alt_allele (PyInt 4) (PyInt 3) False = Inl (ValueError msg) \<and>
      get_limited_gc_indices_for_alt_allele (PyInt 4) (PyInt 3) False = Inl (ValueError msg)"
    by (rule lookups_reject_invalid) simp
  have s: "sanity_check (PyInt 1) (PyInt 0) = Inl (ValueError ''num_alleles must be integer >= 2'')"
    "sanity_check (PyInt 4) PyOther = Inl (ValueError ''alt_idx must be non negative integer'')"
    "sanity_check (PyInt 4) (PyInt 3) = Inl (ValueError ''alt_idx must be <= (num_alleles - 2)'')"
    by (simp_all add: sanity_check_def)
  show ?thesis using 1 2 3 unfolding s by auto
qed

text \<open>
  Claim C6: for every valid input (allele count in 2..26, alt index in
  \<open>0..alleleCount - 2\<close>), every position returned by the limited lookup is among the
  positions returned by the full lookup on the same arguments.
\<close>

theorem limited_within_full:
  assumes "2 \<le> n" "n \<le> 26" "0 \<le> a" "a \<le> n - 2"
  shows "\<exists>full limited.
           returned (get_gc_indices_for_alt_allele (PyInt n) (PyInt a) v) = Inr full \<and>
           returned (get_limited_gc_indices_for_alt_allele (PyInt n) (PyInt a) w) = Inr limited \<and>
           set limited \<subseteq> set full"
proof -
  let ?L = "enumerate_pair_labels (nat n)"
  let ?T = "generic_allele_lookup_table ! nat (a + 1)"
  have "nat (a + 1) < 26" using assms by simp
  then obtain t where t: "?T = [t]" using table_single by blast
  have "set (indices_where (\<lambda>pair. pair = ''A'' @ ?T \<or> pair = ?T @ ?T) ?L)
        \<subseteq> set (indices_where (py_str_in ?T) ?L)"
    unfolding indices_where_filter t by (auto simp: py_str_in_single)
  then show ?thesis
    using full_lookup_value[OF assms, of v] limited_lookup_value[OF assms, of w] by simp
qed

theorem limited_within_full_witness:
  "(2::int) \<le> 4 \<and> (4::int) \<le> 26 \<and> (0::int) \<le> 1 \<and> (1::int) \<le> 4 - 2 \<and>
   (\<exists>full limited.
      returned (get_gc_indices_for_alt_allele (PyInt 4) (PyInt 1) True) = Inr full \<and>
      returned (get_limited_gc_indices_for_alt_allele (PyInt 4) (PyInt 1) True) = Inr limited \<and>
      set limited \<subseteq> set full)"
  using limited_within_full [of 4 1 True True] by simp

text \<open>
  Claim C8: for every input, valid or not, each lookup returns with \<^verbatim>\<open>verbose=True\<close> what it
  returns with \<^verbatim>\<open>verbose=False\<close>, and with \<^verbatim>\<open>verbose=False\<close> it prints nothing: the flag
  decides the printed output only. Each lookup reads its arguments and nothing else, so
  it is a function of them.
\<close>

theorem verbose_only_prints:
  "returned (get_gc_indices_for_alt_allele num_alleles alt_idx True) =
     returned (get_gc_indices_for_alt_allele num_alleles alt_idx False) \<and>
   returned (get_limited_gc_indices_for_alt_allele num_alleles alt_idx True) =
     returned (get_limited_gc_indices_for_alt_allele num_alleles alt_idx False) \<and>
   printed (get_gc_indices_for_alt_allele num_alleles alt_idx False) = [] \<and>
   printed (get_limited_gc_indices_for_alt_allele num_alleles alt_idx False) = []"
  by (simp add: get_gc_indices_for_alt_allele_def get_limited_gc_indices_for_alt_allele_def
      returned_def printed_def Let_def split: sum.splits prod.splits)

theorem verbose_only_prints_witness:
  "returned (get_gc_indices_for_alt_allele (PyInt 4) (PyInt 2) True) =
     returned (get_gc_indices_for_alt_allele (PyInt 4) (PyInt 2) False) \<and>
   returned (get_limited_gc_indices_for_alt_allele (PyInt 4) (PyInt 2) True) =
     returned (get_limited_gc_indices_for_alt_allele (PyInt 4) (PyInt 2) False) \<and>
   printed (get_gc_indices_for_alt_allele (PyInt 4) (PyInt 2) False) = [] \<and>
   printed (get_limited_gc_indices_for_alt_allele (PyInt 4) (PyInt 2) False) = []"
  by (rule verbose_only_prints)

text \<open>
  Claim C9: for every input that passes the sanity check with an allele count of at most
  26, every index into the 26-letter table (the loop variables \<open>i\<close> and \<open>j\<close>, and the
  target index \<open>altIndex + 1\<close>) is in range, and both lookups return a result, not an
  \<^verbatim>\<open>IndexError\<close>.
\<close>

theorem lookups_no_index_error:
  assumes "2 \<le> n" "n \<le> 26" "0 \<le> a" "a \<le> n - 2"
  shows "(\<forall>i \<in> set (py_range 0 n). \<forall>j \<in> set (py_range 0 (i + 1)).
            py_index generic_allele_lookup_table i \<noteq> Inl IndexError \<and>
            py_index generic_allele_lookup_table j \<noteq> Inl IndexError) \<and>
         py_index generic_allele_lookup_table (a + 1) \<noteq> Inl IndexError \<and>
         (\<exists>out indices. get_gc_indices_for_alt_allele (PyInt n) (PyInt a) v = Inr (out, indices)) \<and>
         (\<exists>out indices.
            get_limited_gc_indices_for_alt_allele (PyInt n) (PyInt a) v = Inr (out, indices))"
proof -
  have "\<forall>i \<in> set (py_range 0 n). \<forall>j \<in> set (py_range 0 (i + 1)).
            py_index generic_allele_lookup_table i \<noteq> Inl IndexError \<and>
            py_index generic_allele_lookup_table j \<noteq> Inl IndexError"
    using assms by (auto simp: py_range_def py_index_def table_length)
  moreover have "py_index generic_allele_lookup_table (a + 1) \<noteq> Inl IndexError"
    using assms by (simp add: py_index_def table_length)
  moreover have "\<exists>out indices. get_gc_indices_for_alt_allele (PyInt n) (PyInt a) v = Inr (out, indices)"
    using full_lookup_value[OF assms, of v] returned_Inr by blast
  moreover have "\<exists>out indices.
      get_limited_gc_indices_for_alt_allele (PyInt n) (PyInt a) v = Inr (out, indices)"
    using limited_lookup_value[OF assms, of v] returned_Inr by blast
  ultimately show ?thesis by blast
qed

theorem lookups_no_index_error_witness:
  "(2::int) \<le> 26 \<and> (26::int) \<le> 26 \<and> (0::int) \<le> 24 \<and> (24::int) \<le> 26 - 2 \<and>
   py_index generic_allele_lookup_table (24 + 1) \<noteq> Inl IndexError \<and>
   (\<exists>out indices. get_gc_indices_for_alt_allele (PyInt 26) (PyInt 24) False = Inr (out, indices)) \<and>
   (\<exists>out indices.
      get_limited_gc_indices_for_alt_allele (PyInt 26) (PyInt 24) False = Inr (out, indices))"
  using lookups_no_index_error [of 26 24 False] by simp

text \<open>
  Claim C10: for every valid input (allele count in 2..26, alt index in
  \<open>0..alleleCount - 2\<close>), \<^const>\<open>get_gc_indices_for_alt_allele\<close> returns exactly
  \<open>alleleCount\<close> positions, in strictly ascending order.
\<close>

theorem full_lookup_count:
  assumes "2 \<le> n" "n \<le> 26" "0 \<le> a" "a \<le> n - 2"
  shows "\<exists>indices.
           returned (get_gc_indices_for_alt_allele (PyInt n) (PyInt a) v) = Inr indices \<and>
           int (length indices) = n \<and> sorted_wrt (<) indices"
proof -
  let ?L = "enumerate_pair_labels (nat n)"
  let ?T = "generic_allele_lookup_table ! nat (a + 1)"
  have m: "nat (a + 1) < 26" using assms by simp
  then obtain t where t: "?T = [t]" using table_single by blast
  have nn: "nat n \<le> 26" using assms by linarith
  have "py_str_in [t] = (\<lambda>s. t \<in> set s)"
    by (rule ext) (rule py_str_in_single)
  then have "length (indices_where (py_str_in ?T) ?L) = length (filter (\<lambda>s. t \<in> set s) ?L)"
    unfolding indices_where_length t by simp
  also have "\<dots> = (if nat (a + 1) < nat n then nat n else 0)"
    by (rule labels_count[OF nn m t])
  also have "\<dots> = nat n" using assms by simp
  finally have "int (length (indices_where (py_str_in ?T) ?L)) = n"
    using assms by simp
  then show ?thesis
    using full_lookup_value[OF assms, of v] indices_where_ascending by blast
qed

theorem full_lookup_count_witness:
  "(2::int) \<le> 4 \<and> (4::int) \<le> 26 \<and> (0::int) \<le> 1 \<and> (1::int) \<le> 4 - 2 \<and>
   (\<exists>indices.
      returned (get_gc_indices_for_alt_allele (PyInt 4) (PyInt 1) False) = Inr indices \<and>
      int (length indices) = 4 \<and> sorted_wrt (<) indices)"
  using full_lookup_count [of 4 1 False] by simp

end
